theory Spec2Isabelle
  imports
    Main
    "HOL-Library.Multiset"
    "HOL-Library.Char_ord"
    "HOL-Library.List_Lexorder"
begin

section \<open>JavaScript values\<close>

text \<open>
  The values the hooks of \<^verbatim>\<open>status-effects.js\<close> read and pass on. An object is a
  map from property names to values. \<open>JNum\<close> holds the integers, which print in
  decimal when used as a property key.
\<close>

datatype jsval =
    JUndefined
  | JNull
  | JBool bool
  | JNum int
  | JStr string
  | JArr "jsval list"
  | JObj "string \<Rightarrow> jsval option"

type_synonym jsobj = "string \<Rightarrow> jsval option"

datatype js_error = TypeError

text \<open>\<^verbatim>\<open>v == null\<close>: the values on which \<^verbatim>\<open>??\<close> and \<^verbatim>\<open>?.\<close> fall through.\<close>

fun nullish :: "jsval \<Rightarrow> bool" where
  "nullish JUndefined = True"
| "nullish JNull = True"
| "nullish _ = False"

text \<open>\<^verbatim>\<open>!!v\<close>\<close>

fun truthy :: "jsval \<Rightarrow> bool" where
  "truthy JUndefined = False"
| "truthy JNull = False"
| "truthy (JBool b) = b"
| "truthy (JNum n) = (n \<noteq> 0)"
| "truthy (JStr s) = (s \<noteq> [])"
| "truthy (JArr _) = True"
| "truthy (JObj _) = True"

text \<open>
  \<^verbatim>\<open>v.k\<close> on a value that is neither null nor undefined, for the property names
  the hooks read (\<^verbatim>\<open>id\<close>, \<^verbatim>\<open>icon\<close>, \<^verbatim>\<open>name\<close>, \<^verbatim>\<open>overlay\<close>): no prototype
  defines them, so only an object's own property answers.
\<close>

fun js_get :: "jsval \<Rightarrow> string \<Rightarrow> jsval" where
  "js_get (JObj fs) k = (case fs k of Some v \<Rightarrow> v | None \<Rightarrow> JUndefined)"
| "js_get _ k = JUndefined"

text \<open>Decimal digits of a natural number.\<close>

function dec :: "nat \<Rightarrow> string" where
  "dec n = (if n < 10 then [''0123456789'' ! n] else dec (n div 10) @ [''0123456789'' ! (n mod 10)])"
  by pat_completeness auto
termination
  by (relation "measure (\<lambda>n. n)") auto

declare dec.simps [simp del]

definition intercalate :: "string \<Rightarrow> string list \<Rightarrow> string" where
  "intercalate sep xs = (case xs of [] \<Rightarrow> [] | y # ys \<Rightarrow> y @ concat (map (\<lambda>z. sep @ z) ys))"

text \<open>
  The string a value becomes when it is used as a property key (\<^verbatim>\<open>obj[v]\<close>,
  \<^verbatim>\<open>v in obj\<close>). An array joins its elements with commas, null and undefined
  elements giving the empty string.
\<close>

fun to_key :: "jsval \<Rightarrow> string" where
  "to_key JUndefined = ''undefined''"
| "to_key JNull = ''null''"
| "to_key (JBool b) = (if b then ''true'' else ''false'')"
| "to_key (JNum n) = (if n < 0 then CHR ''-'' # dec (nat (- n)) else dec (nat n))"
| "to_key (JStr s) = s"
| "to_key (JArr xs) = intercalate '','' (map (\<lambda>x. if nullish x then [] else to_key x) xs)"
| "to_key (JObj _) = ''[object Object]''"

text \<open>
  The property names every plain object inherits from \<^verbatim>\<open>Object.prototype\<close>:
  \<^verbatim>\<open>k in {}\<close> is true for them.
\<close>

definition object_prototype_names :: "string list" where
  "object_prototype_names =
     [''constructor'', ''__defineGetter__'', ''__defineSetter__'', ''hasOwnProperty'',
      ''__lookupGetter__'', ''__lookupSetter__'', ''isPrototypeOf'',
      ''propertyIsEnumerable'', ''toString'', ''valueOf'', ''__proto__'',
      ''toLocaleString'']"

text \<open>\<^verbatim>\<open>k in obj\<close> for an object literal with own properties \<open>obj\<close>.\<close>

definition js_in :: "string \<Rightarrow> (string \<Rightarrow> 'a option) \<Rightarrow> bool" where
  "js_in k obj = (obj k \<noteq> None \<or> k \<in> set object_prototype_names)"

subsection \<open>Strings\<close>

text \<open>\<^verbatim>\<open>s.startsWith(p)\<close>\<close>

definition startsWith :: "string \<Rightarrow> string \<Rightarrow> bool" where
  "startsWith s p = (take (length p) s = p)"

text \<open>
  \<^verbatim>\<open>s.replace(pat, rep)\<close> with a string pattern: the first occurrence of \<open>pat\<close> is
  replaced (\<open>rep\<close> without \<^verbatim>\<open>$\<close> patterns).
\<close>

fun replace :: "string \<Rightarrow> string \<Rightarrow> string \<Rightarrow> string" where
  "replace [] pat rep = (if pat = [] then rep else [])"
| "replace (c # cs) pat rep =
     (if startsWith (c # cs) pat then rep @ drop (length pat) (c # cs)
      else c # replace cs pat rep)"

text \<open>
  A string is a sequence of code units below 256, and \<open><\<close> on strings compares
  them code unit by code unit, as JavaScript does. The upper-case letters among
  these code units are \<^verbatim>\<open>A\<close> to \<^verbatim>\<open>Z\<close> (65 to 90) and the accented capitals 192
  to 214 and 216 to 222; 215 is the multiplication sign.
\<close>

definition is_upper_code :: "nat \<Rightarrow> bool" where
  "is_upper_code n = (65 \<le> n \<and> n \<le> 90 \<or> 192 \<le> n \<and> n \<le> 214 \<or> 216 \<le> n \<and> n \<le> 222)"

text \<open>
  \<^verbatim>\<open>s.toLowerCase()\<close>: an upper-case letter becomes the letter 32 code units
  higher, which is setting the bit of value 32; every other code unit stays.
\<close>

fun lower_char :: "char \<Rightarrow> char" where
  "lower_char (Char b0 b1 b2 b3 b4 b5 b6 b7) =
     (if is_upper_code (of_char (Char b0 b1 b2 b3 b4 b5 b6 b7))
      then Char b0 b1 b2 b3 b4 True b6 b7
      else Char b0 b1 b2 b3 b4 b5 b6 b7)"

definition toLowerCase :: "string \<Rightarrow> string" where
  "toLowerCase s = map lower_char s"

section \<open>The host's objects\<close>

text \<open>
  An active effect, as the external effects module and the actor hold it:
  \<^verbatim>\<open>effect.name\<close>, \<^verbatim>\<open>effect.toObject()\<close>, \<^verbatim>\<open>effect.statuses\<close> (a set, in
  iteration order) and \<^verbatim>\<open>effect.getFlag('core', 'overlay')\<close>.
\<close>

record active_effect =
  name :: string
  toObject :: jsobj
  statuses :: "string list"
  core_overlay :: jsval

record actor =
  uuid :: string
  actor_effects :: "active_effect list"

text \<open>
  The token document: \<^verbatim>\<open>doc.effects\<close>, a list of icon paths, and
  \<^verbatim>\<open>doc.overlayEffect\<close>, an icon path or nothing.
\<close>

record token_document =
  doc_effects :: "string list"
  overlayEffect :: "string option"

record token =
  token_actor :: "actor option"
  document :: token_document

record settings =
  modifyStatusEffects :: string
  statusEffectNames :: "string list"
  statusEffectsSortOrder :: string

section \<open>onToggleEffect\<close>

text \<open>
  The event of a toggle: \<^verbatim>\<open>event.currentTarget.dataset.statusId\<close>, absent when the
  element has no such data attribute.
\<close>

record dom_event =
  statusId :: "string option"

text \<open>\<^verbatim>\<open>args\<close>: the event, then whatever else the host passed.\<close>

record hook_args =
  event :: dom_event
  rest :: "jsval list"

text \<open>What a call of the hook does to the outside, in order.\<close>

datatype action =
    PreventDefault
  | StopPropagation
  | ToggleEffect string jsval "string list"
  | Wrapper dom_event "jsval list"

text \<open>
  The hook returns the actions it performed and the fault that ended it, if any:
  reading \<^verbatim>\<open>startsWith\<close> of an absent identifier, or \<^verbatim>\<open>uuid\<close> of an absent actor.
\<close>

definition onToggleEffect :: "token \<Rightarrow> hook_args \<Rightarrow> action list \<times> js_error option" where
  "onToggleEffect tok args =
     (case statusId (event args) of
        None \<Rightarrow> ([], Some TypeError)
      | Some statusEffectId \<Rightarrow>
          if startsWith statusEffectId ''Convenient Effect: '' then
            (let effectName = replace statusEffectId ''Convenient Effect: '' '''';
                 overlay = (case rest args of
                              [] \<Rightarrow> JBool False
                            | a # _ \<Rightarrow> if nullish a then JUndefined else js_get a ''overlay'')
             in case token_actor tok of
                  None \<Rightarrow> ([PreventDefault, StopPropagation], Some TypeError)
                | Some a \<Rightarrow>
                    ([PreventDefault, StopPropagation,
                      ToggleEffect effectName overlay [uuid a]], None))
          else ([Wrapper (event args) (rest args)], None))"

section \<open>Fetching and normalising the configured effects\<close>

text \<open>\<^verbatim>\<open>.filter((effect) => effect)\<close>: the lookups that found an effect.\<close>

primrec found_effects :: "'a option list \<Rightarrow> 'a list" where
  "found_effects [] = []"
| "found_effects (x # xs) = (case x of None \<Rightarrow> found_effects xs | Some e \<Rightarrow> e # found_effects xs)"

text \<open>
  \<^verbatim>\<open>{ id: getId(effect.name), ...effect.toObject() }\<close>: the spread comes after
  \<^verbatim>\<open>id\<close>, so its properties are written over the ones before it.
\<close>

definition normalize_effect :: "(string \<Rightarrow> string) \<Rightarrow> active_effect \<Rightarrow> jsobj" where
  "normalize_effect getId effect = [''id'' \<mapsto> JStr (getId (name effect))] ++ toObject effect"

text \<open>
  \<^verbatim>\<open>a.name.toLowerCase()\<close>: a fault unless the property holds a string.
\<close>

definition lowered_name :: "jsobj \<Rightarrow> js_error + string" where
  "lowered_name a = (case a ''name'' of Some (JStr s) \<Rightarrow> Inr (toLowerCase s) | _ \<Rightarrow> Inl TypeError)"

text \<open>The comparator handed to \<^verbatim>\<open>sort\<close>.\<close>

definition compare_names :: "jsobj \<Rightarrow> jsobj \<Rightarrow> js_error + int" where
  "compare_names a b =
     (case lowered_name a of
        Inl e \<Rightarrow> Inl e
      | Inr nameA \<Rightarrow>
          (case lowered_name b of
             Inl e \<Rightarrow> Inl e
           | Inr nameB \<Rightarrow>
               Inr (if nameA < nameB then - 1 else if nameA > nameB then 1 else 0)))"

text \<open>
  \<^verbatim>\<open>Array.prototype.sort(cmp)\<close>, a stable sort: an element moves behind another
  one only when the comparator says it is greater. A fault of the comparator ends
  the sort.
\<close>

fun insort_cmp :: "('a \<Rightarrow> 'a \<Rightarrow> js_error + int) \<Rightarrow> 'a \<Rightarrow> 'a list \<Rightarrow> js_error + 'a list" where
  "insort_cmp cmp x [] = Inr [x]"
| "insort_cmp cmp x (y # ys) =
     (case cmp x y of
        Inl e \<Rightarrow> Inl e
      | Inr c \<Rightarrow>
          if c \<le> 0 then Inr (x # y # ys)
          else (case insort_cmp cmp x ys of Inl e \<Rightarrow> Inl e | Inr zs \<Rightarrow> Inr (y # zs)))"

fun js_sort :: "('a \<Rightarrow> 'a \<Rightarrow> js_error + int) \<Rightarrow> 'a list \<Rightarrow> js_error + 'a list" where
  "js_sort cmp [] = Inr []"
| "js_sort cmp (x # xs) =
     (case js_sort cmp xs of Inl e \<Rightarrow> Inl e | Inr ys \<Rightarrow> insort_cmp cmp x ys)"

text \<open>
  \<^verbatim>\<open>_fetchStatusEffects\<close>. The finder of the external effects module and
  \<^verbatim>\<open>getId\<close> of the effect helpers are parameters.
\<close>

definition fetchStatusEffects ::
  "settings \<Rightarrow> (string \<Rightarrow> active_effect option) \<Rightarrow> (string \<Rightarrow> string) \<Rightarrow> js_error + jsobj list" where
  "fetchStatusEffects st findEffectByName getId =
     (let statusEffects =
            map (normalize_effect getId) (found_effects (map findEffectByName (statusEffectNames st)))
      in if statusEffectsSortOrder st = ''alphabetical''
         then js_sort compare_names statusEffects
         else Inr statusEffects)"

text \<open>
  \<^verbatim>\<open>initialize\<close>, from the host catalog \<^verbatim>\<open>CONFIG.statusEffects\<close> to the catalog
  it leaves behind.
\<close>

definition initialize ::
  "settings \<Rightarrow> (string \<Rightarrow> active_effect option) \<Rightarrow> (string \<Rightarrow> string) \<Rightarrow> jsobj list
     \<Rightarrow> js_error + jsobj list" where
  "initialize st findEffectByName getId CONFIG_statusEffects =
     (if modifyStatusEffects st = ''replace'' then fetchStatusEffects st findEffectByName getId
      else if modifyStatusEffects st = ''add'' then
        (case fetchStatusEffects st findEffectByName getId of
           Inl e \<Rightarrow> Inl e
         | Inr fetched \<Rightarrow> Inr (CONFIG_statusEffects @ fetched))
      else Inr CONFIG_statusEffects)"

section \<open>getStatusEffectChoices\<close>

record status =
  status_id :: string
  overlay :: bool

record status_choice =
  choice_id :: jsval
  title :: jsval
  src :: jsval
  isActive :: bool
  isOverlay :: bool
  cssClass :: string

text \<open>
  The statuses active for the actor: the \<^verbatim>\<open>reduce\<close> over \<^verbatim>\<open>actor.effects\<close>, each
  effect writing a record under every identifier of its \<^verbatim>\<open>statuses\<close>.
\<close>

definition statuses_step :: "active_effect \<Rightarrow> (string \<Rightarrow> status option) \<Rightarrow> (string \<Rightarrow> status option)" where
  "statuses_step effect obj =
     fold (\<lambda>i ob. ob(i \<mapsto> \<lparr>status_id = i, overlay = truthy (core_overlay effect)\<rparr>))
       (statuses effect) obj"

definition active_statuses :: "actor option \<Rightarrow> (string \<Rightarrow> status option)" where
  "active_statuses a =
     (case a of None \<Rightarrow> Map.empty | Some ac \<Rightarrow> fold statuses_step (actor_effects ac) Map.empty)"

text \<open>\<^verbatim>\<open>Array.prototype.filterJoin\<close> of the host: join what is not null or empty.\<close>

definition filterJoin :: "string \<Rightarrow> string option list \<Rightarrow> string" where
  "filterJoin sep xs = intercalate sep (filter (\<lambda>s. s \<noteq> []) (found_effects xs))"

text \<open>\<^verbatim>\<open>doc.effects.includes(src)\<close>: only a string equals an element of a string list.\<close>

definition array_includes :: "string list \<Rightarrow> jsval \<Rightarrow> bool" where
  "array_includes xs v = (case v of JStr s \<Rightarrow> s \<in> set xs | _ \<Rightarrow> False)"

text \<open>\<^verbatim>\<open>doc.overlayEffect === src\<close>, for a \<open>src\<close> that is neither null nor undefined.\<close>

definition strict_eq_str :: "string option \<Rightarrow> jsval \<Rightarrow> bool" where
  "strict_eq_str ov v = (case v of JStr s \<Rightarrow> ov = Some s | _ \<Rightarrow> False)"

text \<open>
  The body of the \<^verbatim>\<open>reduce\<close> over the candidates, after the test for a key that
  is already there: the choice stored for candidate \<open>e\<close>.
\<close>

definition choice_of ::
  "(jsval \<Rightarrow> jsval) \<Rightarrow> (string \<Rightarrow> status option) \<Rightarrow> token_document \<Rightarrow> jsval \<Rightarrow> status_choice" where
  "choice_of localize sts doc e =
     (let icon = js_get e ''icon'';
          src = (if nullish icon then e else icon);
          st = sts (to_key (js_get e ''id''));
          isActive = ((case st of None \<Rightarrow> False | Some s \<Rightarrow> status_id s \<noteq> [])
                      \<or> array_includes (doc_effects doc) src);
          isOverlay = ((case st of None \<Rightarrow> False | Some s \<Rightarrow> overlay s)
                       \<or> strict_eq_str (overlayEffect doc) src)
      in \<lparr>choice_id = (if nullish (js_get e ''id'') then JStr [] else js_get e ''id''),
          title = (if truthy (js_get e ''name'') then localize (js_get e ''name'') else JNull),
          src = src,
          isActive = isActive,
          isOverlay = isOverlay,
          cssClass = filterJoin '' ''
            [if isActive then Some ''active'' else None,
             if isOverlay then Some ''overlay'' else None]\<rparr>)"

definition choices_step ::
  "(jsval \<Rightarrow> jsval) \<Rightarrow> (string \<Rightarrow> status option) \<Rightarrow> token_document \<Rightarrow> jsval
     \<Rightarrow> (string \<Rightarrow> status_choice option) \<Rightarrow> (string \<Rightarrow> status_choice option)" where
  "choices_step localize sts doc e obj =
     (let k = to_key (js_get e ''id'')
      in if js_in k obj then obj else obj(k \<mapsto> choice_of localize sts doc e))"

text \<open>
  The candidates: the catalog, then a copy of the token document's effects, then
  its overlay effect when that is a non-empty string.
\<close>

definition tokenEffects :: "token_document \<Rightarrow> jsval list" where
  "tokenEffects doc =
     map JStr (doc_effects doc)
     @ (case overlayEffect doc of None \<Rightarrow> [] | Some ov \<Rightarrow> if ov \<noteq> [] then [JStr ov] else [])"

definition candidates :: "jsobj list \<Rightarrow> token_document \<Rightarrow> jsval list" where
  "candidates CONFIG_statusEffects doc = map JObj CONFIG_statusEffects @ tokenEffects doc"

text \<open>
  \<^verbatim>\<open>getStatusEffectChoices\<close>. The localisation service, the catalog and the
  host's own method with its arguments are parameters.
\<close>

definition getStatusEffectChoices ::
  "settings \<Rightarrow> (jsval \<Rightarrow> jsval) \<Rightarrow> jsobj list \<Rightarrow> token
     \<Rightarrow> ('args \<Rightarrow> string \<Rightarrow> status_choice option) \<Rightarrow> 'args \<Rightarrow> (string \<Rightarrow> status_choice option)" where
  "getStatusEffectChoices st localize CONFIG_statusEffects tok wrapper args =
     (if modifyStatusEffects st = ''none'' then wrapper args
      else
        (let doc = document tok;
             sts = active_statuses (token_actor tok)
         in fold (choices_step localize sts doc) (candidates CONFIG_statusEffects doc) Map.empty))"

section \<open>refreshStatusIcons\<close>

text \<open>
  An icon of the HUD: \<^verbatim>\<open>img.dataset.statusId\<close>, its \<^verbatim>\<open>src\<close> attribute and its
  class list.
\<close>

record icon =
  dataset_statusId :: "string option"
  icon_src :: string
  classList :: "string list"

text \<open>\<^verbatim>\<open>classList.toggle(c, force)\<close>: the class is there afterwards iff \<open>force\<close>.\<close>

definition toggle :: "string \<Rightarrow> bool \<Rightarrow> string list \<Rightarrow> string list" where
  "toggle c force cl =
     (if force then (if c \<in> set cl then cl else cl @ [c]) else removeAll c cl)"

definition refresh_icon :: "(string \<Rightarrow> status_choice option) \<Rightarrow> icon \<Rightarrow> icon" where
  "refresh_icon sts img =
     (let st = sts (case dataset_statusId img of None \<Rightarrow> ''undefined'' | Some i \<Rightarrow> i)
      in img\<lparr>classList :=
           toggle ''active'' (case st of None \<Rightarrow> False | Some s \<Rightarrow> isActive s)
             (toggle ''overlay'' (case st of None \<Rightarrow> False | Some s \<Rightarrow> isOverlay s)
                (classList img))\<rparr>)"

text \<open>
  \<^verbatim>\<open>refreshStatusIcons\<close>: \<open>container\<close> is the children of the first
  \<^verbatim>\<open>.status-effects\<close> element of the HUD, nothing when there is none, and \<open>sts\<close>
  is what \<^verbatim>\<open>tokenHud._getStatusEffectChoices()\<close> returns.
\<close>

definition refreshStatusIcons ::
  "icon list option \<Rightarrow> (string \<Rightarrow> status_choice option) \<Rightarrow> js_error + icon list" where
  "refreshStatusIcons container sts =
     (case container of
        None \<Rightarrow> Inl TypeError
      | Some children \<Rightarrow> Inr (map (refresh_icon sts) children))"

section \<open>Notions used to state the properties\<close>

text \<open>An entry whose \<^verbatim>\<open>name\<close> property is a string.\<close>

definition has_name :: "jsobj \<Rightarrow> bool" where
  "has_name a = (case a ''name'' of Some (JStr s) \<Rightarrow> True | _ \<Rightarrow> False)"

text \<open>
  Ignoring case, letter by letter: every capital letter with its small letter,
  the 26 letters of the alphabet and the 30 accented letters among the code units
  below 256.
\<close>

definition case_pairs :: "(char \<times> char) list" where
  "case_pairs =
     zip (''ABCDEFGHIJKLMNOPQRSTUVWXYZ''
          @ [CHR 0xC0, CHR 0xC1, CHR 0xC2, CHR 0xC3, CHR 0xC4, CHR 0xC5, CHR 0xC6, CHR 0xC7,
             CHR 0xC8, CHR 0xC9, CHR 0xCA, CHR 0xCB, CHR 0xCC, CHR 0xCD, CHR 0xCE, CHR 0xCF,
             CHR 0xD0, CHR 0xD1, CHR 0xD2, CHR 0xD3, CHR 0xD4, CHR 0xD5, CHR 0xD6,
             CHR 0xD8, CHR 0xD9, CHR 0xDA, CHR 0xDB, CHR 0xDC, CHR 0xDD, CHR 0xDE])
         (''abcdefghijklmnopqrstuvwxyz''
          @ [CHR 0xE0, CHR 0xE1, CHR 0xE2, CHR 0xE3, CHR 0xE4, CHR 0xE5, CHR 0xE6, CHR 0xE7,
             CHR 0xE8, CHR 0xE9, CHR 0xEA, CHR 0xEB, CHR 0xEC, CHR 0xED, CHR 0xEE, CHR 0xEF,
             CHR 0xF0, CHR 0xF1, CHR 0xF2, CHR 0xF3, CHR 0xF4, CHR 0xF5, CHR 0xF6,
             CHR 0xF8, CHR 0xF9, CHR 0xFA, CHR 0xFB, CHR 0xFC, CHR 0xFD, CHR 0xFE])"

definition fold_case :: "char \<Rightarrow> char" where
  "fold_case c = (case map_of case_pairs c of None \<Rightarrow> c | Some d \<Rightarrow> d)"

text \<open>
  The key of a case-insensitive order by name: the entry's name with every
  capital letter replaced by its small letter.
\<close>

definition name_key :: "jsobj \<Rightarrow> string" where
  "name_key a = (case a ''name'' of Some (JStr s) \<Rightarrow> map fold_case s | _ \<Rightarrow> [])"

text \<open>\<^verbatim>\<open>e.id\<close> of a catalog entry.\<close>

definition entry_id :: "jsobj \<Rightarrow> jsval" where
  "entry_id a = js_get (JObj a) ''id''"

text \<open>The configured names that the finder resolves, normalised, in lookup order.\<close>

definition resolved :: "settings \<Rightarrow> (string \<Rightarrow> active_effect option) \<Rightarrow> (string \<Rightarrow> string) \<Rightarrow> jsobj list" where
  "resolved st findEffectByName getId =
     map (normalize_effect getId) (found_effects (map findEffectByName (statusEffectNames st)))"

subsection \<open>Sample inputs\<close>

definition sample_getId :: "string \<Rightarrow> string" where
  "sample_getId n = ''Convenient Effect: '' @ n"

definition sample_effect :: "string \<Rightarrow> active_effect" where
  "sample_effect n =
     \<lparr>name = n, toObject = [''name'' \<mapsto> JStr n, ''icon'' \<mapsto> JStr ''icons/svg/aura.svg''],
      statuses = [], core_overlay = JUndefined\<rparr>"

definition sample_finder :: "string \<Rightarrow> active_effect option" where
  "sample_finder n = (if n = ''Blinded'' \<or> n = ''Ablaze'' then Some (sample_effect n) else None)"

text \<open>A finder that knows an effect under every name.\<close>

definition sample_finder_all :: "string \<Rightarrow> active_effect option" where
  "sample_finder_all n = Some (sample_effect n)"

definition sample_settings :: "string \<Rightarrow> string \<Rightarrow> string list \<Rightarrow> settings" where
  "sample_settings mode order names =
     \<lparr>modifyStatusEffects = mode, statusEffectNames = names, statusEffectsSortOrder = order\<rparr>"

text \<open>An effect on an actor that declares the statuses \<open>ids\<close> with overlay flag \<open>flag\<close>.\<close>

definition sample_active_effect :: "string list \<Rightarrow> jsval \<Rightarrow> active_effect" where
  "sample_active_effect ids flag =
     \<lparr>name = ''Sample'', toObject = Map.empty, statuses = ids, core_overlay = flag\<rparr>"

definition sample_actor :: "active_effect list \<Rightarrow> actor" where
  "sample_actor effs = \<lparr>uuid = ''Actor.a1'', actor_effects = effs\<rparr>"

text \<open>A catalog entry, a token and a host method for the choice mapping.\<close>

definition sample_entry :: "string \<Rightarrow> string \<Rightarrow> string \<Rightarrow> jsobj" where
  "sample_entry i n ic = [''id'' \<mapsto> JStr i, ''name'' \<mapsto> JStr n, ''icon'' \<mapsto> JStr ic]"

definition sample_token :: "actor option \<Rightarrow> string list \<Rightarrow> string option \<Rightarrow> token" where
  "sample_token a effs ov =
     \<lparr>token_actor = a, document = \<lparr>doc_effects = effs, overlayEffect = ov\<rparr>\<rparr>"

definition sample_wrapper :: "unit \<Rightarrow> string \<Rightarrow> status_choice option" where
  "sample_wrapper u = Map.empty"

definition sample_localize :: "jsval \<Rightarrow> jsval" where
  "sample_localize v = v"

section \<open>Properties of the string helpers\<close>

lemma replace_prefix:
  assumes "startsWith s p"
  shows "replace s p [] = drop (length p) s"
  using assms by (cases s) (auto simp: startsWith_def)

lemma startsWith_split: "startsWith s p \<Longrightarrow> s = p @ drop (length p) s"
  by (metis append_take_drop_id startsWith_def)

section \<open>Toggle interception\<close>

text \<open>
  Claim C1. When the status identifier of the event starts with
  \<^verbatim>\<open>Convenient Effect: \<close> and the token has an actor, \<^verbatim>\<open>onToggleEffect\<close>
  suppresses the event's default action and its propagation and then calls the
  external \<^verbatim>\<open>toggleEffect\<close> once, with the identifier stripped of the prefix, with
  the actor's uuid as only target, and with an overlay value that is \<^verbatim>\<open>false\<close>
  when no second argument came and \<^verbatim>\<open>true\<close> exactly when the second argument
  carries \<^verbatim>\<open>overlay: true\<close>; the wrapper is not called. When the identifier lacks
  the prefix, the only action is the call of the wrapper with the arguments as
  they came.
\<close>

theorem onToggleEffect_intercepts:
  assumes sid: "statusId (event args) = Some s"
  shows "(startsWith s ''Convenient Effect: '' \<longrightarrow>
            (\<forall>a. token_actor tok = Some a \<longrightarrow>
              (\<exists>ov. onToggleEffect tok args =
                      ([PreventDefault, StopPropagation,
                        ToggleEffect (drop (length ''Convenient Effect: '') s) ov [uuid a]], None)
                    \<and> s = ''Convenient Effect: '' @ drop (length ''Convenient Effect: '') s
                    \<and> (rest args = [] \<longrightarrow> ov = JBool False)
                    \<and> (ov = JBool True \<longleftrightarrow>
                         (\<exists>x xs. rest args = x # xs \<and> js_get x ''overlay'' = JBool True)))))
       \<and> (\<not> startsWith s ''Convenient Effect: '' \<longrightarrow>
            onToggleEffect tok args = ([Wrapper (event args) (rest args)], None))"
proof (intro conjI impI allI)
  assume "\<not> startsWith s ''Convenient Effect: ''"
  then show "onToggleEffect tok args = ([Wrapper (event args) (rest args)], None)"
    using sid by (simp add: onToggleEffect_def)
next
  fix a
  assume p: "startsWith s ''Convenient Effect: ''" and a: "token_actor tok = Some a"
  have name: "replace s ''Convenient Effect: '' [] = drop (length ''Convenient Effect: '') s"
    using p by (rule replace_prefix)
  have split: "s = ''Convenient Effect: '' @ drop (length ''Convenient Effect: '') s"
    using p by (rule startsWith_split)
  show "\<exists>ov. onToggleEffect tok args =
                ([PreventDefault, StopPropagation,
                  ToggleEffect (drop (length ''Convenient Effect: '') s) ov [uuid a]], None)
              \<and> s = ''Convenient Effect: '' @ drop (length ''Convenient Effect: '') s
              \<and> (rest args = [] \<longrightarrow> ov = JBool False)
              \<and> (ov = JBool True \<longleftrightarrow>
                   (\<exists>x xs. rest args = x # xs \<and> js_get x ''overlay'' = JBool True))"
  proof (cases "rest args")
    case Nil
    then show ?thesis using sid p a name split
      by (simp add: onToggleEffect_def Let_def)
  next
    case (Cons x xs)
    then show ?thesis using sid p a name split
      by (cases x) (auto simp add: onToggleEffect_def Let_def)
  qed
qed

theorem onToggleEffect_intercepts_witness:
  "onToggleEffect
     \<lparr>token_actor = Some \<lparr>uuid = ''Actor.a1'', actor_effects = []\<rparr>,
      document = \<lparr>doc_effects = [], overlayEffect = None\<rparr>\<rparr>
     \<lparr>event = \<lparr>statusId = Some ''Convenient Effect: Blinded''\<rparr>,
      rest = [JObj [''overlay'' \<mapsto> JBool True]]\<rparr>
   = ([PreventDefault, StopPropagation, ToggleEffect ''Blinded'' (JBool True) [''Actor.a1'']], None)
   \<and> onToggleEffect
     \<lparr>token_actor = Some \<lparr>uuid = ''Actor.a1'', actor_effects = []\<rparr>,
      document = \<lparr>doc_effects = [], overlayEffect = None\<rparr>\<rparr>
     \<lparr>event = \<lparr>statusId = Some ''dead''\<rparr>, rest = [JObj [''overlay'' \<mapsto> JBool True]]\<rparr>
   = ([Wrapper \<lparr>statusId = Some ''dead''\<rparr> [JObj [''overlay'' \<mapsto> JBool True]]], None)"
proof -
  let ?tok = "\<lparr>token_actor = Some \<lparr>uuid = ''Actor.a1'', actor_effects = []\<rparr>,
               document = \<lparr>doc_effects = [], overlayEffect = None\<rparr>\<rparr>"
  let ?a1 = "\<lparr>event = \<lparr>statusId = Some ''Convenient Effect: Blinded''\<rparr>,
              rest = [JObj [''overlay'' \<mapsto> JBool True]]\<rparr>"
  let ?a2 = "\<lparr>event = \<lparr>statusId = Some ''dead''\<rparr>, rest = [JObj [''overlay'' \<mapsto> JBool True]]\<rparr>"
  have s1: "statusId (event ?a1) = Some ''Convenient Effect: Blinded''" by simp
  have s2: "statusId (event ?a2) = Some ''dead''" by simp
  have p1: "startsWith ''Convenient Effect: Blinded'' ''Convenient Effect: ''"
    by (simp add: startsWith_def)
  have p2: "\<not> startsWith ''dead'' ''Convenient Effect: ''"
    by (simp add: startsWith_def)
  have ac: "token_actor ?tok = Some \<lparr>uuid = ''Actor.a1'', actor_effects = []\<rparr>" by simp
  from onToggleEffect_intercepts [OF s1, of ?tok] p1 ac
  obtain ov where
    r: "onToggleEffect ?tok ?a1 =
          ([PreventDefault, StopPropagation,
            ToggleEffect (drop (length ''Convenient Effect: '') ''Convenient Effect: Blinded'') ov
              [uuid \<lparr>uuid = ''Actor.a1'', actor_effects = []\<rparr>]], None)"
    and o: "ov = JBool True \<longleftrightarrow>
              (\<exists>x xs. rest ?a1 = x # xs \<and> js_get x ''overlay'' = JBool True)"
    by blast
  have "ov = JBool True" using o by simp
  with r have first: "onToggleEffect ?tok ?a1 =
      ([PreventDefault, StopPropagation, ToggleEffect ''Blinded'' (JBool True) [''Actor.a1'']], None)"
    by simp
  from onToggleEffect_intercepts [OF s2, of ?tok] p2
  have second: "onToggleEffect ?tok ?a2 = ([Wrapper (event ?a2) (rest ?a2)], None)"
    by blast
  show ?thesis using first second by simp
qed

section \<open>The sort of the fetched effects\<close>

text \<open>
  The lowering of the source and the table of capital and small letters agree on
  every code unit.
\<close>

lemma lower_char_fold_case: "lower_char c = fold_case c"
proof (cases c)
  case (Char b0 b1 b2 b3 b4 b5 b6 b7)
  show ?thesis unfolding Char
    by (cases b0; cases b1; cases b2; cases b3; cases b4; cases b5; cases b6; cases b7)
       (simp_all add: is_upper_code_def fold_case_def case_pairs_def)
qed

lemma toLowerCase_fold_case: "toLowerCase s = map fold_case s"
  by (simp add: toLowerCase_def lower_char_fold_case)

text \<open>
  On entries that all carry a string name, the sort with the comparator of the
  source is the stable insertion sort by the name without its case.
\<close>

lemma compare_names_keys:
  assumes "has_name a" and "has_name b"
  shows "compare_names a b =
           Inr (if name_key a < name_key b then - 1 else if name_key a > name_key b then 1 else 0)"
  using assms
  by (auto simp: compare_names_def lowered_name_def has_name_def name_key_def
           toLowerCase_fold_case split: option.splits jsval.splits)

lemma insort_cmp_insort_key:
  assumes "has_name x" and "\<forall>y\<in>set ys. has_name y"
  shows "insort_cmp compare_names x ys = Inr (insort_key name_key x ys)"
  using assms
proof (induction ys)
  case Nil
  then show ?case by simp
next
  case (Cons y ys)
  then have c: "compare_names x y =
      Inr (if name_key x < name_key y then - 1 else if name_key x > name_key y then 1 else 0)"
    by (simp add: compare_names_keys)
  from Cons have ih: "insort_cmp compare_names x ys = Inr (insort_key name_key x ys)"
    by simp
  show ?case
    by (auto simp add: c ih)
qed

lemma js_sort_sort_key:
  assumes "\<forall>x\<in>set xs. has_name x"
  shows "js_sort compare_names xs = Inr (sort_key name_key xs)"
  using assms
proof (induction xs)
  case Nil
  then show ?case by simp
next
  case (Cons x xs)
  then have ih: "js_sort compare_names xs = Inr (sort_key name_key xs)" by simp
  have "\<forall>y\<in>set (sort_key name_key xs). has_name y" using Cons.prems by simp
  with Cons.prems have "insort_cmp compare_names x (sort_key name_key xs)
                         = Inr (insort_key name_key x (sort_key name_key xs))"
    by (simp add: insort_cmp_insort_key)
  then show ?case by (simp add: ih)
qed

subsection \<open>The sample effects\<close>

lemma mset_pair_cases:
  assumes "mset ys = {#a, b#}"
  shows "ys = [a, b] \<or> ys = [b, a]"
proof -
  from assms have "length ys = 2"
    by (metis size_mset size_add_mset size_empty numeral_2_eq_2)
  then obtain u v where ys: "ys = [u, v]"
    by (metis (no_types) length_0_conv length_Suc_conv numeral_2_eq_2)
  with assms have "{#u, v#} = {#a, b#}" by simp
  then have "u = a \<and> v = b \<or> u = b \<and> v = a"
    by (auto simp: add_eq_conv_ex)
  with ys show ?thesis by blast
qed

lemma resolved_sample:
  "resolved (sample_settings m ord [''Blinded'', ''Ablaze'']) sample_finder sample_getId
     = [normalize_effect sample_getId (sample_effect ''Blinded''),
        normalize_effect sample_getId (sample_effect ''Ablaze'')]"
  by (simp add: resolved_def sample_settings_def sample_finder_def)

lemma name_key_sample: "name_key (normalize_effect g (sample_effect n)) = map fold_case n"
  by (simp add: name_key_def normalize_effect_def sample_effect_def)

lemma resolved_all:
  "resolved (sample_settings m ord names) sample_finder_all g
     = map (\<lambda>n. normalize_effect g (sample_effect n)) names"
  by (induction names) (simp_all add: resolved_def sample_settings_def sample_finder_all_def)

lemma has_name_sample: "has_name (normalize_effect g (sample_effect n))"
  by (simp add: has_name_def normalize_effect_def sample_effect_def)

text \<open>
  Claim C8. With a sort order other than \<^verbatim>\<open>alphabetical\<close>, \<^verbatim>\<open>_fetchStatusEffects\<close>
  returns the resolved effects in lookup order. With \<^verbatim>\<open>alphabetical\<close>, and every
  entry carrying a string name, it returns a rearrangement of them that is sorted
  by the name without its case (every capital letter taken as its small letter),
  entries whose names differ in case only keeping their relative order. The
  names Blinded, Ablaze come out as Ablaze, Blinded when sorted and as Blinded,
  Ablaze when not.
\<close>

theorem fetchStatusEffects_order:
  "(statusEffectsSortOrder st \<noteq> ''alphabetical'' \<longrightarrow>
      fetchStatusEffects st f g = Inr (resolved st f g))
   \<and> (statusEffectsSortOrder st = ''alphabetical'' \<and> (\<forall>x\<in>set (resolved st f g). has_name x) \<longrightarrow>
        (\<exists>ys. fetchStatusEffects st f g = Inr ys
            \<and> mset ys = mset (resolved st f g)
            \<and> sorted (map name_key ys)
            \<and> (\<forall>k. filter (\<lambda>y. name_key y = k) ys
                   = filter (\<lambda>y. name_key y = k) (resolved st f g))))"
proof (intro conjI impI)
  assume "statusEffectsSortOrder st \<noteq> ''alphabetical''"
  then show "fetchStatusEffects st f g = Inr (resolved st f g)"
    by (simp add: fetchStatusEffects_def resolved_def)
next
  assume a: "statusEffectsSortOrder st = ''alphabetical'' \<and> (\<forall>x\<in>set (resolved st f g). has_name x)"
  then have "fetchStatusEffects st f g = Inr (sort_key name_key (resolved st f g))"
    using js_sort_sort_key [of "resolved st f g"]
    by (simp add: fetchStatusEffects_def resolved_def)
  moreover have "mset (sort_key name_key (resolved st f g)) = mset (resolved st f g)"
    by simp
  moreover have "sorted (map name_key (sort_key name_key (resolved st f g)))"
    by simp
  moreover have "\<forall>k. filter (\<lambda>y. name_key y = k) (sort_key name_key (resolved st f g))
                   = filter (\<lambda>y. name_key y = k) (resolved st f g)"
    by (simp add: sort_key_stable)
  ultimately show "\<exists>ys. fetchStatusEffects st f g = Inr ys
            \<and> mset ys = mset (resolved st f g)
            \<and> sorted (map name_key ys)
            \<and> (\<forall>k. filter (\<lambda>y. name_key y = k) ys
                   = filter (\<lambda>y. name_key y = k) (resolved st f g))"
    by blast
qed

theorem fetchStatusEffects_order_witness:
  "fetchStatusEffects (sample_settings ''replace'' ''alphabetical'' [''Blinded'', ''Ablaze''])
       sample_finder sample_getId
     = Inr [normalize_effect sample_getId (sample_effect ''Ablaze''),
            normalize_effect sample_getId (sample_effect ''Blinded'')]
   \<and> fetchStatusEffects (sample_settings ''replace'' ''unsorted'' [''Blinded'', ''Ablaze''])
       sample_finder sample_getId
     = Inr [normalize_effect sample_getId (sample_effect ''Blinded''),
            normalize_effect sample_getId (sample_effect ''Ablaze'')]
   \<and> fetchStatusEffects
       (sample_settings ''replace'' ''alphabetical''
          [''blinded'', [CHR 0xE9], ''Zeta'', ''Blinded'', [CHR 0xC9], ''ablaze'', ''BLINDED''])
       sample_finder_all sample_getId
     = Inr [normalize_effect sample_getId (sample_effect ''ablaze''),
            normalize_effect sample_getId (sample_effect ''blinded''),
            normalize_effect sample_getId (sample_effect ''Blinded''),
            normalize_effect sample_getId (sample_effect ''BLINDED''),
            normalize_effect sample_getId (sample_effect ''Zeta''),
            normalize_effect sample_getId (sample_effect [CHR 0xE9]),
            normalize_effect sample_getId (sample_effect [CHR 0xC9])]"
proof (intro conjI)
  let ?B = "normalize_effect sample_getId (sample_effect ''Blinded'')"
  let ?A = "normalize_effect sample_getId (sample_effect ''Ablaze'')"
  let ?st = "sample_settings ''replace'' ''alphabetical'' [''Blinded'', ''Ablaze'']"
  have ord: "statusEffectsSortOrder ?st = ''alphabetical''"
    by (simp add: sample_settings_def)
  have names: "\<forall>x\<in>set (resolved ?st sample_finder sample_getId). has_name x"
    by (simp add: resolved_sample has_name_sample)
  from fetchStatusEffects_order [of ?st sample_finder sample_getId] ord names
  obtain ys where f: "fetchStatusEffects ?st sample_finder sample_getId = Inr ys"
    and m: "mset ys = mset (resolved ?st sample_finder sample_getId)"
    and s: "sorted (map name_key ys)"
    by blast
  from m have "ys = [?B, ?A] \<or> ys = [?A, ?B]"
    by (simp add: resolved_sample mset_pair_cases)
  moreover have "\<not> sorted (map name_key [?B, ?A])"
    by (simp add: name_key_sample fold_case_def case_pairs_def)
  ultimately have "ys = [?A, ?B]" using s by blast
  with f show "fetchStatusEffects ?st sample_finder sample_getId = Inr [?A, ?B]" by simp
next
  let ?st = "sample_settings ''replace'' ''unsorted'' [''Blinded'', ''Ablaze'']"
  have "statusEffectsSortOrder ?st \<noteq> ''alphabetical''"
    by (simp add: sample_settings_def)
  with fetchStatusEffects_order [of ?st sample_finder sample_getId]
  show "fetchStatusEffects ?st sample_finder sample_getId
     = Inr [normalize_effect sample_getId (sample_effect ''Blinded''),
            normalize_effect sample_getId (sample_effect ''Ablaze'')]"
    by (simp add: resolved_sample)
next
  let ?names = "[''blinded'', [CHR 0xE9], ''Zeta'', ''Blinded'', [CHR 0xC9], ''ablaze'', ''BLINDED'']"
  let ?st = "sample_settings ''replace'' ''alphabetical'' ?names"
  let ?n = "\<lambda>n. normalize_effect sample_getId (sample_effect n)"
  have ord: "statusEffectsSortOrder ?st = ''alphabetical''"
    by (simp add: sample_settings_def)
  have names: "\<forall>x\<in>set (resolved ?st sample_finder_all sample_getId). has_name x"
    by (simp add: resolved_all has_name_sample)
  from fetchStatusEffects_order [of ?st sample_finder_all sample_getId] ord names
  obtain ys where ex: "fetchStatusEffects ?st sample_finder_all sample_getId = Inr ys"
    by blast
  have "js_sort compare_names (map ?n ?names) = Inr (sort_key name_key (map ?n ?names))"
    by (rule js_sort_sort_key) (simp add: has_name_sample)
  then have "fetchStatusEffects ?st sample_finder_all sample_getId
               = Inr (sort_key name_key (map ?n ?names))"
    using ord by (simp add: fetchStatusEffects_def resolved_all [unfolded resolved_def])
  also have "sort_key name_key (map ?n ?names)
               = [?n ''ablaze'', ?n ''blinded'', ?n ''Blinded'', ?n ''BLINDED'', ?n ''Zeta'',
                  ?n [CHR 0xE9], ?n [CHR 0xC9]]"
    by (simp add: name_key_sample fold_case_def case_pairs_def)
  finally show "fetchStatusEffects ?st sample_finder_all sample_getId
     = Inr [?n ''ablaze'', ?n ''blinded'', ?n ''Blinded'', ?n ''BLINDED'', ?n ''Zeta'',
            ?n [CHR 0xE9], ?n [CHR 0xC9]]"
    using ex by simp
qed

section \<open>What the fetch returns\<close>

lemma insort_cmp_mset:
  "insort_cmp cmp x ys = Inr zs \<Longrightarrow> mset zs = add_mset x (mset ys)"
  by (induction ys arbitrary: zs) (auto split: sum.splits if_splits)

lemma js_sort_mset: "js_sort cmp xs = Inr ys \<Longrightarrow> mset ys = mset xs"
  by (induction xs arbitrary: ys) (auto split: sum.splits dest: insort_cmp_mset)

lemma fetchStatusEffects_mset:
  assumes "fetchStatusEffects st f g = Inr ys"
  shows "mset ys = mset (resolved st f g)"
proof (cases "statusEffectsSortOrder st = ''alphabetical''")
  case True
  with assms have "js_sort compare_names (resolved st f g) = Inr ys"
    by (simp add: fetchStatusEffects_def resolved_def)
  then show ?thesis by (rule js_sort_mset)
next
  case False
  with assms show ?thesis
    by (simp add: fetchStatusEffects_def resolved_def)
qed



lemma distinct_map_mset:
  assumes "mset xs = mset ys"
  shows "distinct (map h xs) \<longleftrightarrow> distinct (map h ys)"
proof -
  from assms have "mset (map h xs) = mset (map h ys)" by simp
  then show ?thesis by (rule mset_eq_imp_distinct_iff)
qed

lemma sample_settings_sel:
  "modifyStatusEffects (sample_settings m ord names) = m"
  "statusEffectsSortOrder (sample_settings m ord names) = ord"
  "statusEffectNames (sample_settings m ord names) = names"
  by (simp_all add: sample_settings_def)

lemma fetch_sample_unsorted:
  "fetchStatusEffects (sample_settings m ''unsorted'' names) f g
     = Inr (map (normalize_effect g) (found_effects (map f names)))"
  by (simp add: fetchStatusEffects_def sample_settings_def)

text \<open>
  Claim C2. After \<^verbatim>\<open>initialize\<close>: with a mode that is neither \<^verbatim>\<open>replace\<close> nor
  \<^verbatim>\<open>add\<close> (so with \<^verbatim>\<open>none\<close>) the host catalog is as it was; with \<^verbatim>\<open>replace\<close>
  it is the sequence \<^verbatim>\<open>_fetchStatusEffects\<close> returned; with \<^verbatim>\<open>add\<close> it is the
  original entries followed by that sequence.
\<close>

theorem initialize_modes:
  "(modifyStatusEffects st \<noteq> ''replace'' \<and> modifyStatusEffects st \<noteq> ''add'' \<longrightarrow>
      initialize st f g cat = Inr cat)
   \<and> (modifyStatusEffects st = ''replace'' \<longrightarrow>
        (\<forall>fetched. fetchStatusEffects st f g = Inr fetched \<longrightarrow>
           initialize st f g cat = Inr fetched))
   \<and> (modifyStatusEffects st = ''add'' \<longrightarrow>
        (\<forall>fetched. fetchStatusEffects st f g = Inr fetched \<longrightarrow>
           initialize st f g cat = Inr (cat @ fetched)))"
  by (simp add: initialize_def)

theorem initialize_modes_witness:
  "initialize (sample_settings ''none'' ''unsorted'' [''Blinded'', ''Ablaze''])
      sample_finder sample_getId [Map.empty(''id'' \<mapsto> JStr ''dead'')]
     = Inr [Map.empty(''id'' \<mapsto> JStr ''dead'')]
   \<and> initialize (sample_settings ''replace'' ''unsorted'' [''Blinded'', ''Ablaze''])
      sample_finder sample_getId [Map.empty(''id'' \<mapsto> JStr ''dead'')]
     = Inr [normalize_effect sample_getId (sample_effect ''Blinded''),
            normalize_effect sample_getId (sample_effect ''Ablaze'')]
   \<and> initialize (sample_settings ''add'' ''unsorted'' [''Blinded'', ''Ablaze''])
      sample_finder sample_getId [Map.empty(''id'' \<mapsto> JStr ''dead'')]
     = Inr [Map.empty(''id'' \<mapsto> JStr ''dead''),
            normalize_effect sample_getId (sample_effect ''Blinded''),
            normalize_effect sample_getId (sample_effect ''Ablaze'')]"
proof -
  let ?cat = "[Map.empty(''id'' \<mapsto> JStr ''dead'')]"
  let ?names = "[''Blinded'', ''Ablaze'']"
  let ?fetched = "[normalize_effect sample_getId (sample_effect ''Blinded''),
                   normalize_effect sample_getId (sample_effect ''Ablaze'')]"
  have fetched: "fetchStatusEffects (sample_settings m ''unsorted'' ?names) sample_finder sample_getId
                   = Inr ?fetched" for m
    by (simp add: fetch_sample_unsorted sample_finder_def)
  have none: "modifyStatusEffects (sample_settings ''none'' ''unsorted'' ?names) \<noteq> ''replace''
            \<and> modifyStatusEffects (sample_settings ''none'' ''unsorted'' ?names) \<noteq> ''add''"
    by (simp add: sample_settings_def)
  have repl: "modifyStatusEffects (sample_settings ''replace'' ''unsorted'' ?names) = ''replace''"
    by (simp add: sample_settings_def)
  have add: "modifyStatusEffects (sample_settings ''add'' ''unsorted'' ?names) = ''add''"
    by (simp add: sample_settings_def)
  from initialize_modes [of "sample_settings ''none'' ''unsorted'' ?names" sample_finder sample_getId ?cat]
    none
  have 1: "initialize (sample_settings ''none'' ''unsorted'' ?names) sample_finder sample_getId ?cat
             = Inr ?cat"
    by blast
  from initialize_modes [of "sample_settings ''replace'' ''unsorted'' ?names" sample_finder sample_getId ?cat]
    repl fetched
  have 2: "initialize (sample_settings ''replace'' ''unsorted'' ?names) sample_finder sample_getId ?cat
             = Inr ?fetched"
    by blast
  from initialize_modes [of "sample_settings ''add'' ''unsorted'' ?names" sample_finder sample_getId ?cat]
    add fetched
  have 3: "initialize (sample_settings ''add'' ''unsorted'' ?names) sample_finder sample_getId ?cat
             = Inr (?cat @ ?fetched)"
    by blast
  from 1 2 3 show ?thesis by simp
qed





text \<open>
  Claim C7, as stated, fails: a name configured twice gives two catalog entries
  with the same \<^verbatim>\<open>id\<close>, and none is discarded.
\<close>

theorem catalog_ids_counterexample:
  "initialize (sample_settings ''replace'' ''unsorted'' [''Blinded'', ''Blinded''])
       sample_finder sample_getId []
     = Inr [normalize_effect sample_getId (sample_effect ''Blinded''),
            normalize_effect sample_getId (sample_effect ''Blinded'')]
   \<and> \<not> distinct (map entry_id [normalize_effect sample_getId (sample_effect ''Blinded''),
                              normalize_effect sample_getId (sample_effect ''Blinded'')])"
  by (simp add: initialize_def fetch_sample_unsorted sample_finder_def sample_settings_sel)

text \<open>
  Claim C7, amended. \<^verbatim>\<open>initialize\<close> discards no entry: the catalog it leaves
  holds, as a multiset, one normalised entry for every configured name that
  resolves (\<^verbatim>\<open>replace\<close>), the original entries and those (\<^verbatim>\<open>add\<close>), or the
  original entries alone (any other mode). So the ids are unique in the catalog
  exactly when they are pairwise distinct among the entries that go into it.
\<close>

theorem initialize_keeps_every_entry:
  assumes "initialize st f g cat = Inr cat'"
  shows "mset cat' =
           (if modifyStatusEffects st = ''replace'' then mset (resolved st f g)
            else if modifyStatusEffects st = ''add'' then mset cat + mset (resolved st f g)
            else mset cat)
       \<and> (distinct (map entry_id cat') \<longleftrightarrow>
            distinct (map entry_id
              (if modifyStatusEffects st = ''replace'' then resolved st f g
               else if modifyStatusEffects st = ''add'' then cat @ resolved st f g
               else cat)))"
proof -
  have m: "mset cat' =
           mset (if modifyStatusEffects st = ''replace'' then resolved st f g
                 else if modifyStatusEffects st = ''add'' then cat @ resolved st f g
                 else cat)"
    using assms
    by (auto simp: initialize_def split: if_splits sum.splits dest: fetchStatusEffects_mset)
  from distinct_map_mset [OF m, of entry_id] m show ?thesis
    by (simp split: if_splits)
qed

theorem initialize_keeps_every_entry_witness:
  "initialize (sample_settings ''replace'' ''unsorted'' [''Blinded'', ''Nobody'', ''Blinded''])
       sample_finder sample_getId []
     = Inr [normalize_effect sample_getId (sample_effect ''Blinded''),
            normalize_effect sample_getId (sample_effect ''Blinded'')]
   \<and> mset [normalize_effect sample_getId (sample_effect ''Blinded''),
           normalize_effect sample_getId (sample_effect ''Blinded'')]
     = mset (resolved (sample_settings ''replace'' ''unsorted'' [''Blinded'', ''Nobody'', ''Blinded''])
               sample_finder sample_getId)"
proof -
  let ?st = "sample_settings ''replace'' ''unsorted'' [''Blinded'', ''Nobody'', ''Blinded'']"
  have i: "initialize ?st sample_finder sample_getId []
     = Inr [normalize_effect sample_getId (sample_effect ''Blinded''),
            normalize_effect sample_getId (sample_effect ''Blinded'')]"
    by (simp add: initialize_def fetch_sample_unsorted sample_finder_def sample_settings_sel)
  have r: "modifyStatusEffects ?st = ''replace''" by (simp add: sample_settings_def)
  from initialize_keeps_every_entry [OF i] r i show ?thesis by simp
qed

section \<open>The statuses active for the actor\<close>

lemma find_append_cases:
  "find P (xs @ ys) = (case find P xs of None \<Rightarrow> find P ys | Some x \<Rightarrow> Some x)"
  by (induction xs) auto

lemma find_first:
  assumes "P e" and "\<forall>x\<in>set pre. \<not> P x"
  shows "find P (pre @ e # post) = Some e"
  using assms by (induction pre) auto

lemma find_none: "(\<forall>x\<in>set xs. \<not> P x) \<Longrightarrow> find P xs = None"
  by (induction xs) auto

lemma find_last:
  assumes "P e" and "\<forall>x\<in>set post. \<not> P x"
  shows "find P (rev (pre @ e # post)) = Some e"
proof -
  have "find P (rev post) = None" using assms(2) by (simp add: find_none)
  then show ?thesis using assms(1) by (simp add: find_append_cases)
qed

lemma fold_upd_apply:
  "fold (\<lambda>i ob. ob(i \<mapsto> h i)) xs obj k = (if k \<in> set xs then Some (h k) else obj k)"
  by (induction xs arbitrary: obj) auto

lemma statuses_step_apply:
  "statuses_step e obj k =
     (if k \<in> set (statuses e) then Some \<lparr>status_id = k, overlay = truthy (core_overlay e)\<rparr>
      else obj k)"
  unfolding statuses_step_def by (rule fold_upd_apply)

lemma fold_statuses_step:
  "fold statuses_step es obj k =
     (case find (\<lambda>e. k \<in> set (statuses e)) (rev es) of
        None \<Rightarrow> obj k
      | Some e \<Rightarrow> Some \<lparr>status_id = k, overlay = truthy (core_overlay e)\<rparr>)"
proof (induction es arbitrary: obj)
  case Nil
  then show ?case by simp
next
  case (Cons e es)
  have "fold statuses_step (e # es) obj k = fold statuses_step es (statuses_step e obj) k"
    by simp
  also have "\<dots> = (case find (\<lambda>e. k \<in> set (statuses e)) (rev es) of
                       None \<Rightarrow> statuses_step e obj k
                     | Some e \<Rightarrow> Some \<lparr>status_id = k, overlay = truthy (core_overlay e)\<rparr>)"
    by (rule Cons.IH)
  also have "\<dots> = (case find (\<lambda>e. k \<in> set (statuses e)) (rev (e # es)) of
                       None \<Rightarrow> obj k
                     | Some e \<Rightarrow> Some \<lparr>status_id = k, overlay = truthy (core_overlay e)\<rparr>)"
    by (cases "find (\<lambda>e. k \<in> set (statuses e)) (rev es)")
       (simp_all add: find_append_cases statuses_step_apply)
  finally show ?case .
qed

lemma active_statuses_find:
  "active_statuses (Some ac) k =
     (case find (\<lambda>e. k \<in> set (statuses e)) (rev (actor_effects ac)) of
        None \<Rightarrow> None
      | Some e \<Rightarrow> Some \<lparr>status_id = k, overlay = truthy (core_overlay e)\<rparr>)"
  by (simp add: active_statuses_def fold_statuses_step)

lemma active_statuses_id:
  assumes "active_statuses a k = Some s"
  shows "status_id s = k"
proof (cases a)
  case None
  with assms show ?thesis by (simp add: active_statuses_def)
next
  case (Some ac)
  with assms show ?thesis
    by (auto simp: active_statuses_find split: option.splits)
qed

lemma active_statuses_declared:
  assumes "active_statuses (Some ac) k = Some s"
  shows "\<exists>e\<in>set (actor_effects ac). k \<in> set (statuses e)"
proof -
  from assms obtain e where "find (\<lambda>e. k \<in> set (statuses e)) (rev (actor_effects ac)) = Some e"
    by (auto simp: active_statuses_find split: option.splits)
  then show ?thesis by (auto simp: find_Some_iff in_set_conv_nth) (metis length_rev nth_mem set_rev)
qed

text \<open>
  Claim C10. In the map of active statuses derived from the actor's effects, the
  record under an identifier carries the overlay flag of the last effect, in the
  order of the actor's effect list, that declares the identifier: what effects
  before it wrote is overwritten. An identifier that no effect declares has no
  record.
\<close>

theorem active_statuses_last_wins:
  "(\<forall>pre e post.
      actor_effects ac = pre @ e # post \<and> k \<in> set (statuses e)
        \<and> (\<forall>x\<in>set post. k \<notin> set (statuses x)) \<longrightarrow>
      active_statuses (Some ac) k = Some \<lparr>status_id = k, overlay = truthy (core_overlay e)\<rparr>)
   \<and> ((\<forall>e\<in>set (actor_effects ac). k \<notin> set (statuses e)) \<longrightarrow> active_statuses (Some ac) k = None)"
proof (intro conjI allI impI)
  fix pre e post
  assume "actor_effects ac = pre @ e # post \<and> k \<in> set (statuses e)
            \<and> (\<forall>x\<in>set post. k \<notin> set (statuses x))"
  then have "find (\<lambda>e. k \<in> set (statuses e)) (rev (actor_effects ac)) = Some e"
    using find_last [of "\<lambda>e. k \<in> set (statuses e)" e post pre] by simp
  then show "active_statuses (Some ac) k = Some \<lparr>status_id = k, overlay = truthy (core_overlay e)\<rparr>"
    by (simp add: active_statuses_find)
next
  assume "\<forall>e\<in>set (actor_effects ac). k \<notin> set (statuses e)"
  then have "find (\<lambda>e. k \<in> set (statuses e)) (rev (actor_effects ac)) = None"
    by (simp add: find_none)
  then show "active_statuses (Some ac) k = None"
    by (simp add: active_statuses_find)
qed

theorem active_statuses_last_wins_witness:
  "active_statuses
     (Some (sample_actor [sample_active_effect [''blinded''] (JBool True),
                          sample_active_effect [''blinded'', ''prone''] JUndefined]))
     ''blinded''
   = Some \<lparr>status_id = ''blinded'', overlay = False\<rparr>"
proof -
  let ?e1 = "sample_active_effect [''blinded''] (JBool True)"
  let ?e2 = "sample_active_effect [''blinded'', ''prone''] JUndefined"
  have "actor_effects (sample_actor [?e1, ?e2]) = [?e1] @ ?e2 # []
          \<and> ''blinded'' \<in> set (statuses ?e2)
          \<and> (\<forall>x\<in>set []. ''blinded'' \<notin> set (statuses x))"
    by (simp add: sample_actor_def sample_active_effect_def)
  with active_statuses_last_wins [of "sample_actor [?e1, ?e2]" "''blinded''"]
  have "active_statuses (Some (sample_actor [?e1, ?e2])) ''blinded''
          = Some \<lparr>status_id = ''blinded'', overlay = truthy (core_overlay ?e2)\<rparr>"
    by blast
  then show ?thesis by (simp add: sample_active_effect_def)
qed

section \<open>The choice mapping\<close>

lemma choices_step_apply:
  "choices_step L sts doc e obj k =
     (if to_key (js_get e ''id'') = k \<and> \<not> js_in k obj then Some (choice_of L sts doc e)
      else obj k)"
  by (simp add: choices_step_def Let_def)

lemma js_in_choices_step:
  "js_in k (choices_step L sts doc e obj) \<longleftrightarrow> js_in k obj \<or> to_key (js_get e ''id'') = k"
  by (auto simp: choices_step_def Let_def js_in_def)

lemma fold_choices_step:
  "fold (choices_step L sts doc) cs obj k =
     (if js_in k obj then obj k
      else map_option (choice_of L sts doc) (find (\<lambda>e. to_key (js_get e ''id'') = k) cs))"
proof (induction cs arbitrary: obj)
  case Nil
  then show ?case by (simp add: js_in_def)
next
  case (Cons e cs)
  have "fold (choices_step L sts doc) (e # cs) obj k
          = fold (choices_step L sts doc) cs (choices_step L sts doc e obj) k"
    by simp
  also have "\<dots> = (if js_in k (choices_step L sts doc e obj) then choices_step L sts doc e obj k
                     else map_option (choice_of L sts doc)
                            (find (\<lambda>e. to_key (js_get e ''id'') = k) cs))"
    by (rule Cons.IH)
  also have "\<dots> = (if js_in k obj then obj k
                     else map_option (choice_of L sts doc)
                            (find (\<lambda>e. to_key (js_get e ''id'') = k) (e # cs)))"
    by (simp add: js_in_choices_step choices_step_apply)
  finally show ?case .
qed

lemma getStatusEffectChoices_find:
  assumes "modifyStatusEffects st \<noteq> ''none''"
  shows "getStatusEffectChoices st L cat tok w args k =
           (if k \<in> set object_prototype_names then None
            else map_option (choice_of L (active_statuses (token_actor tok)) (document tok))
                   (find (\<lambda>e. to_key (js_get e ''id'') = k) (candidates cat (document tok))))"
  using assms
  by (simp add: getStatusEffectChoices_def Let_def fold_choices_step js_in_def)

lemma cssClass_choice_of:
  "cssClass (choice_of L sts doc e) =
     (if isActive (choice_of L sts doc e) \<and> isOverlay (choice_of L sts doc e) then ''active overlay''
      else if isActive (choice_of L sts doc e) then ''active''
      else if isOverlay (choice_of L sts doc e) then ''overlay''
      else [])"
  by (simp add: choice_of_def Let_def filterJoin_def intercalate_def)

lemma src_choice_of:
  "src (choice_of L sts doc e) = (if nullish (js_get e ''icon'') then e else js_get e ''icon'')"
  by (simp add: choice_of_def Let_def)

lemma isActive_choice_of:
  "isActive (choice_of L sts doc e) \<longleftrightarrow>
     (\<exists>s. sts (to_key (js_get e ''id'')) = Some s \<and> status_id s \<noteq> [])
     \<or> (\<exists>p. src (choice_of L sts doc e) = JStr p \<and> p \<in> set (doc_effects doc))"
  by (auto simp: choice_of_def Let_def array_includes_def split: option.splits jsval.splits)

lemma isOverlay_choice_of:
  "isOverlay (choice_of L sts doc e) \<longleftrightarrow>
     (\<exists>s. sts (to_key (js_get e ''id'')) = Some s \<and> overlay s)
     \<or> (\<exists>p. src (choice_of L sts doc e) = JStr p \<and> overlayEffect doc = Some p)"
  by (auto simp: choice_of_def Let_def strict_eq_str_def split: option.splits jsval.splits)

lemma active_statuses_nonblank:
  assumes "\<forall>a. token_actor tok = Some a \<longrightarrow> (\<forall>eff\<in>set (actor_effects a). [] \<notin> set (statuses eff))"
    and "active_statuses (token_actor tok) k = Some s"
  shows "status_id s \<noteq> []"
proof (cases "token_actor tok")
  case None
  with assms(2) show ?thesis by (simp add: active_statuses_def)
next
  case (Some a)
  with assms(2) have "\<exists>e\<in>set (actor_effects a). k \<in> set (statuses e)"
    using active_statuses_declared by simp
  with assms(1) Some have "k \<noteq> []" by auto
  moreover have "status_id s = k" using assms(2) by (rule active_statuses_id)
  ultimately show ?thesis by simp
qed

lemma sample_settings_mode: "modifyStatusEffects (sample_settings ''replace'' ord names) \<noteq> ''none''"
  by (simp add: sample_settings_def)

lemma sample_token_sel:
  "token_actor (sample_token a effs ov) = a"
  "document (sample_token a effs ov) = \<lparr>doc_effects = effs, overlayEffect = ov\<rparr>"
  by (simp_all add: sample_token_def)

text \<open>
  With a mode other than \<^verbatim>\<open>none\<close>, the entry of the choice mapping under a key
  is decided by the first candidate, in the order catalog, token effects, overlay
  effect, whose id gives that key, whatever candidates with the same id follow
  it: under a key that every object inherits, such as \<^verbatim>\<open>constructor\<close>, which
  passes the \<^verbatim>\<open>in\<close> test on the empty object, there is no entry; under any other
  key the entry is the choice built from that first candidate.
\<close>

lemma first_candidate_decides:
  assumes "modifyStatusEffects st \<noteq> ''none''"
    and "candidates cat (document tok) = pre @ e # post"
    and "to_key (js_get e ''id'') = k"
    and "\<forall>x\<in>set pre. to_key (js_get x ''id'') \<noteq> k"
  shows "getStatusEffectChoices st L cat tok w args k =
           (if k \<in> set object_prototype_names then None
            else Some (choice_of L (active_statuses (token_actor tok)) (document tok) e))"
proof -
  have "find (\<lambda>x. to_key (js_get x ''id'') = k) (pre @ e # post) = Some e"
    using assms(3,4) by (simp add: find_first)
  then show ?thesis
    using assms(1,2) by (simp add: getStatusEffectChoices_find)
qed

text \<open>
  Claim C4 at a catalog of two entries that share the id \<^verbatim>\<open>constructor\<close>: the
  test \<^verbatim>\<open>id in obj\<close> holds for the first entry already, the object being empty,
  so neither entry is stored and the mapping is empty; the first occurrence does
  not appear.
\<close>

theorem inherited_id_never_stored:
  "getStatusEffectChoices (sample_settings ''replace'' ''unsorted'' []) sample_localize
     [sample_entry ''constructor'' ''First'' ''icons/a.svg'',
      sample_entry ''constructor'' ''Second'' ''icons/b.svg'']
     (sample_token None [] None) sample_wrapper ()
   = Map.empty"
proof (rule ext)
  fix k
  show "getStatusEffectChoices (sample_settings ''replace'' ''unsorted'' []) sample_localize
     [sample_entry ''constructor'' ''First'' ''icons/a.svg'',
      sample_entry ''constructor'' ''Second'' ''icons/b.svg'']
     (sample_token None [] None) sample_wrapper () k
   = Map.empty k"
    by (auto simp add: getStatusEffectChoices_find sample_settings_mode object_prototype_names_def
          candidates_def tokenEffects_def sample_token_sel sample_entry_def)
qed

text \<open>
  Claim C3. With a mode other than \<^verbatim>\<open>none\<close> and no actor effect declaring the
  empty status identifier, every choice of the mapping comes from a candidate
  with that key and has: \<^verbatim>\<open>src\<close> the candidate's icon, or the candidate itself
  when it has none; \<^verbatim>\<open>isActive\<close> true iff the actor's active statuses have a
  record under the key or the token document's effects contain \<^verbatim>\<open>src\<close>;
  \<^verbatim>\<open>isOverlay\<close> true iff that record's overlay flag is set or the token
  document's overlay effect is \<^verbatim>\<open>src\<close>; \<^verbatim>\<open>cssClass\<close> the tags \<^verbatim>\<open>active\<close> and
  \<^verbatim>\<open>overlay\<close> of the flags that are true, joined by a space. An actor with one
  effect declaring \<^verbatim>\<open>blinded\<close> with overlay flag true gives, under \<^verbatim>\<open>blinded\<close>,
  an active overlay choice with class \<^verbatim>\<open>active overlay\<close>.
\<close>

theorem getStatusEffectChoices_flags:
  assumes mode: "modifyStatusEffects st \<noteq> ''none''"
    and noblank: "\<forall>a. token_actor tok = Some a \<longrightarrow>
                    (\<forall>eff\<in>set (actor_effects a). [] \<notin> set (statuses eff))"
    and c: "getStatusEffectChoices st L cat tok w args k = Some c"
  shows "\<exists>e\<in>set (candidates cat (document tok)).
           to_key (js_get e ''id'') = k
         \<and> src c = (if nullish (js_get e ''icon'') then e else js_get e ''icon'')
         \<and> (isActive c \<longleftrightarrow>
              active_statuses (token_actor tok) k \<noteq> None
              \<or> (\<exists>p. src c = JStr p \<and> p \<in> set (doc_effects (document tok))))
         \<and> (isOverlay c \<longleftrightarrow>
              (\<exists>s. active_statuses (token_actor tok) k = Some s \<and> overlay s)
              \<or> (\<exists>p. src c = JStr p \<and> overlayEffect (document tok) = Some p))
         \<and> cssClass c =
              (if isActive c \<and> isOverlay c then ''active overlay''
               else if isActive c then ''active''
               else if isOverlay c then ''overlay''
               else [])"
proof -
  let ?sts = "active_statuses (token_actor tok)"
  let ?doc = "document tok"
  from mode c obtain e where
    f: "find (\<lambda>e. to_key (js_get e ''id'') = k) (candidates cat ?doc) = Some e"
    and ce: "c = choice_of L ?sts ?doc e"
    by (auto simp: getStatusEffectChoices_find split: if_splits)
  from f have mem: "e \<in> set (candidates cat ?doc)" and key: "to_key (js_get e ''id'') = k"
    by (auto simp: find_Some_iff)
  have act: "isActive c \<longleftrightarrow>
              ?sts k \<noteq> None \<or> (\<exists>p. src c = JStr p \<and> p \<in> set (doc_effects ?doc))"
    using active_statuses_nonblank [OF noblank]
    by (auto simp: ce isActive_choice_of key)
  have ov: "isOverlay c \<longleftrightarrow>
              (\<exists>s. ?sts k = Some s \<and> overlay s)
              \<or> (\<exists>p. src c = JStr p \<and> overlayEffect ?doc = Some p)"
    by (simp add: ce isOverlay_choice_of key)
  have css: "cssClass c =
              (if isActive c \<and> isOverlay c then ''active overlay''
               else if isActive c then ''active''
               else if isOverlay c then ''overlay''
               else [])"
    unfolding ce by (rule cssClass_choice_of)
  have s: "src c = (if nullish (js_get e ''icon'') then e else js_get e ''icon'')"
    unfolding ce by (rule src_choice_of)
  from mem key s act ov css show ?thesis by blast
qed

theorem getStatusEffectChoices_flags_witness:
  "getStatusEffectChoices (sample_settings ''replace'' ''unsorted'' []) sample_localize
     [sample_entry ''blinded'' ''Blinded'' ''icons/blinded.svg'']
     (sample_token (Some (sample_actor [sample_active_effect [''blinded''] (JBool True)])) [] None)
     sample_wrapper () ''blinded''
   = Some \<lparr>choice_id = JStr ''blinded'', title = JStr ''Blinded'', src = JStr ''icons/blinded.svg'',
           isActive = True, isOverlay = True, cssClass = ''active overlay''\<rparr>"
proof -
  let ?st = "sample_settings ''replace'' ''unsorted'' []"
  let ?cat = "[sample_entry ''blinded'' ''Blinded'' ''icons/blinded.svg'']"
  let ?ac = "sample_actor [sample_active_effect [''blinded''] (JBool True)]"
  let ?tok = "sample_token (Some ?ac) [] None"
  let ?c = "\<lparr>choice_id = JStr ''blinded'', title = JStr ''Blinded'', src = JStr ''icons/blinded.svg'',
           isActive = True, isOverlay = True, cssClass = ''active overlay''\<rparr>"
  have noblank: "\<forall>a. token_actor ?tok = Some a \<longrightarrow>
                   (\<forall>eff\<in>set (actor_effects a). [] \<notin> set (statuses eff))"
    by (simp add: sample_token_sel sample_actor_def sample_active_effect_def)
  have sts: "active_statuses (Some ?ac) ''blinded'' = Some \<lparr>status_id = ''blinded'', overlay = True\<rparr>"
    by (simp add: active_statuses_find sample_actor_def sample_active_effect_def)
  have c: "getStatusEffectChoices ?st sample_localize ?cat ?tok sample_wrapper () ''blinded'' = Some ?c"
    by (simp add: getStatusEffectChoices_find sample_settings_mode object_prototype_names_def
          candidates_def tokenEffects_def sample_token_sel sample_entry_def sts
          choice_of_def Let_def sample_localize_def array_includes_def strict_eq_str_def
          filterJoin_def intercalate_def)
  from getStatusEffectChoices_flags [OF sample_settings_mode noblank c]
  have "isActive ?c \<longrightarrow> isOverlay ?c \<longrightarrow> cssClass ?c = ''active overlay''"
    by auto
  with c show ?thesis by simp
qed

text \<open>
  Claim C5 at a token document with two effects of its own, which are icon paths
  and have no \<^verbatim>\<open>id\<close>: both get the key \<^verbatim>\<open>undefined\<close>, so the mapping has that
  one key only, holding the first effect with the empty string as its id, and the
  second effect is not in the mapping.
\<close>

theorem token_effects_share_one_key:
  "getStatusEffectChoices (sample_settings ''replace'' ''unsorted'' []) sample_localize []
     (sample_token None [''icons/a.png'', ''icons/b.png''] None) sample_wrapper ()
   = [''undefined'' \<mapsto>
        \<lparr>choice_id = JStr [], title = JNull, src = JStr ''icons/a.png'',
         isActive = True, isOverlay = False, cssClass = ''active''\<rparr>]"
proof (rule ext)
  fix k
  show "getStatusEffectChoices (sample_settings ''replace'' ''unsorted'' []) sample_localize []
     (sample_token None [''icons/a.png'', ''icons/b.png''] None) sample_wrapper () k
   = [''undefined'' \<mapsto>
        \<lparr>choice_id = JStr [], title = JNull, src = JStr ''icons/a.png'',
         isActive = True, isOverlay = False, cssClass = ''active''\<rparr>] k"
    by (auto simp add: getStatusEffectChoices_find sample_settings_mode object_prototype_names_def
          candidates_def tokenEffects_def sample_token_sel
          choice_of_def Let_def active_statuses_def array_includes_def strict_eq_str_def
          filterJoin_def intercalate_def)
qed

section \<open>Refreshing the icons\<close>

lemma set_toggle: "c \<in> set (toggle d b cl) \<longleftrightarrow> (if c = d then b else c \<in> set cl)"
  by (auto simp: toggle_def)

lemma refresh_icon_classes:
  "c \<in> set (classList (refresh_icon sts img)) \<longleftrightarrow>
     (if c = ''active''
        then (\<exists>s. sts (case dataset_statusId img of None \<Rightarrow> ''undefined'' | Some i \<Rightarrow> i) = Some s
                  \<and> isActive s)
      else if c = ''overlay''
        then (\<exists>s. sts (case dataset_statusId img of None \<Rightarrow> ''undefined'' | Some i \<Rightarrow> i) = Some s
                  \<and> isOverlay s)
      else c \<in> set (classList img))"
  by (auto simp: refresh_icon_def Let_def set_toggle split: option.splits)

lemma refresh_icon_fields:
  "dataset_statusId (refresh_icon sts img) = dataset_statusId img"
  "icon_src (refresh_icon sts img) = icon_src img"
  by (simp_all add: refresh_icon_def Let_def)

text \<open>
  Claim C9. When the HUD has a status-effect container, \<^verbatim>\<open>refreshStatusIcons\<close>
  returns its icons, as many as before and each with its dataset identifier and
  icon source unchanged, such that for every icon the class \<^verbatim>\<open>overlay\<close> is
  present iff the choice mapping has an entry under the icon's dataset
  identifier and that entry is an overlay, the class \<^verbatim>\<open>active\<close> is present iff
  there is such an entry and it is active, and every other class is present iff
  it was before. The icon source plays no part in the lookup. An icon without an
  entry under its identifier ends with neither class.
\<close>

theorem refreshStatusIcons_classes:
  "\<exists>icons'. refreshStatusIcons (Some icons) sts = Inr icons'
      \<and> length icons' = length icons
      \<and> (\<forall>i<length icons.
            (''overlay'' \<in> set (classList (icons' ! i)) \<longleftrightarrow>
               (\<exists>s. sts (case dataset_statusId (icons ! i) of None \<Rightarrow> ''undefined'' | Some x \<Rightarrow> x)
                       = Some s \<and> isOverlay s))
          \<and> (''active'' \<in> set (classList (icons' ! i)) \<longleftrightarrow>
               (\<exists>s. sts (case dataset_statusId (icons ! i) of None \<Rightarrow> ''undefined'' | Some x \<Rightarrow> x)
                       = Some s \<and> isActive s))
          \<and> (\<forall>c. c \<noteq> ''overlay'' \<and> c \<noteq> ''active'' \<longrightarrow>
                 (c \<in> set (classList (icons' ! i)) \<longleftrightarrow> c \<in> set (classList (icons ! i))))
          \<and> dataset_statusId (icons' ! i) = dataset_statusId (icons ! i)
          \<and> icon_src (icons' ! i) = icon_src (icons ! i))"
proof -
  have "refreshStatusIcons (Some icons) sts = Inr (map (refresh_icon sts) icons)"
    by (simp add: refreshStatusIcons_def)
  moreover have "length (map (refresh_icon sts) icons) = length icons"
    by simp
  moreover have "\<forall>i<length icons.
            (''overlay'' \<in> set (classList (map (refresh_icon sts) icons ! i)) \<longleftrightarrow>
               (\<exists>s. sts (case dataset_statusId (icons ! i) of None \<Rightarrow> ''undefined'' | Some x \<Rightarrow> x)
                       = Some s \<and> isOverlay s))
          \<and> (''active'' \<in> set (classList (map (refresh_icon sts) icons ! i)) \<longleftrightarrow>
               (\<exists>s. sts (case dataset_statusId (icons ! i) of None \<Rightarrow> ''undefined'' | Some x \<Rightarrow> x)
                       = Some s \<and> isActive s))
          \<and> (\<forall>c. c \<noteq> ''overlay'' \<and> c \<noteq> ''active'' \<longrightarrow>
                 (c \<in> set (classList (map (refresh_icon sts) icons ! i))
                    \<longleftrightarrow> c \<in> set (classList (icons ! i))))
          \<and> dataset_statusId (map (refresh_icon sts) icons ! i) = dataset_statusId (icons ! i)
          \<and> icon_src (map (refresh_icon sts) icons ! i) = icon_src (icons ! i)"
  proof (intro allI impI)
    fix i
    assume i: "i < length icons"
    have n: "map (refresh_icon sts) icons ! i = refresh_icon sts (icons ! i)"
      using i by simp
    have o: "''overlay'' \<in> set (classList (refresh_icon sts (icons ! i))) \<longleftrightarrow>
               (\<exists>s. sts (case dataset_statusId (icons ! i) of None \<Rightarrow> ''undefined'' | Some x \<Rightarrow> x)
                       = Some s \<and> isOverlay s)"
      by (simp add: refresh_icon_classes)
    have a: "''active'' \<in> set (classList (refresh_icon sts (icons ! i))) \<longleftrightarrow>
               (\<exists>s. sts (case dataset_statusId (icons ! i) of None \<Rightarrow> ''undefined'' | Some x \<Rightarrow> x)
                       = Some s \<and> isActive s)"
      by (simp add: refresh_icon_classes)
    have r: "\<forall>c. c \<noteq> ''overlay'' \<and> c \<noteq> ''active'' \<longrightarrow>
                 (c \<in> set (classList (refresh_icon sts (icons ! i)))
                    \<longleftrightarrow> c \<in> set (classList (icons ! i)))"
      using refresh_icon_classes [of _ sts "icons ! i"] by metis
    show "(''overlay'' \<in> set (classList (map (refresh_icon sts) icons ! i)) \<longleftrightarrow>
               (\<exists>s. sts (case dataset_statusId (icons ! i) of None \<Rightarrow> ''undefined'' | Some x \<Rightarrow> x)
                       = Some s \<and> isOverlay s))
          \<and> (''active'' \<in> set (classList (map (refresh_icon sts) icons ! i)) \<longleftrightarrow>
               (\<exists>s. sts (case dataset_statusId (icons ! i) of None \<Rightarrow> ''undefined'' | Some x \<Rightarrow> x)
                       = Some s \<and> isActive s))
          \<and> (\<forall>c. c \<noteq> ''overlay'' \<and> c \<noteq> ''active'' \<longrightarrow>
                 (c \<in> set (classList (map (refresh_icon sts) icons ! i))
                    \<longleftrightarrow> c \<in> set (classList (icons ! i))))
          \<and> dataset_statusId (map (refresh_icon sts) icons ! i) = dataset_statusId (icons ! i)
          \<and> icon_src (map (refresh_icon sts) icons ! i) = icon_src (icons ! i)"
      unfolding n using o a r refresh_icon_fields [of sts "icons ! i"] by blast
  qed
  ultimately show ?thesis by blast
qed


theorem refreshStatusIcons_classes_witness:
  "refreshStatusIcons
     (Some [\<lparr>dataset_statusId = Some ''blinded'', icon_src = ''icons/a.svg'',
             classList = [''effect-control'']\<rparr>,
            \<lparr>dataset_statusId = Some ''prone'', icon_src = ''icons/a.svg'',
             classList = [''effect-control'', ''active'', ''overlay'']\<rparr>])
     [''blinded'' \<mapsto>
        \<lparr>choice_id = JStr ''blinded'', title = JStr ''Blinded'', src = JStr ''icons/a.svg'',
         isActive = True, isOverlay = True, cssClass = ''active overlay''\<rparr>]
   = Inr [\<lparr>dataset_statusId = Some ''blinded'', icon_src = ''icons/a.svg'',
           classList = [''effect-control'', ''overlay'', ''active'']\<rparr>,
          \<lparr>dataset_statusId = Some ''prone'', icon_src = ''icons/a.svg'',
           classList = [''effect-control'']\<rparr>]"
proof -
  let ?icons = "[\<lparr>dataset_statusId = Some ''blinded'', icon_src = ''icons/a.svg'',
                  classList = [''effect-control'']\<rparr>,
                 \<lparr>dataset_statusId = Some ''prone'', icon_src = ''icons/a.svg'',
                  classList = [''effect-control'', ''active'', ''overlay'']\<rparr>]"
  let ?sts = "[''blinded'' \<mapsto>
        \<lparr>choice_id = JStr ''blinded'', title = JStr ''Blinded'', src = JStr ''icons/a.svg'',
         isActive = True, isOverlay = True, cssClass = ''active overlay''\<rparr>]"
  from refreshStatusIcons_classes [of ?icons ?sts]
  have r: "\<exists>icons'. refreshStatusIcons (Some ?icons) ?sts = Inr icons'"
    by (elim exE conjE) (rule exI)
  have "refreshStatusIcons (Some ?icons) ?sts
          = Inr [\<lparr>dataset_statusId = Some ''blinded'', icon_src = ''icons/a.svg'',
                   classList = [''effect-control'', ''overlay'', ''active'']\<rparr>,
                 \<lparr>dataset_statusId = Some ''prone'', icon_src = ''icons/a.svg'',
                   classList = [''effect-control'']\<rparr>]"
    by (simp add: refreshStatusIcons_def refresh_icon_def Let_def toggle_def)
  with r show ?thesis by (elim exE)
qed

end
